theory Spec2Isabelle
  imports Complex_Main "HOL-Library.Word" "HOL-Library.Multiset"
begin

unbundle bit_operations_syntax

section \<open>JavaScript numbers and operators used by script.js\<close>

text \<open>
  The address arithmetic of \<^verbatim>\<open>src/js/script.js\<close> works on JavaScript numbers that hold
  integers far below \<open>2^53\<close>, where \<open>+\<close> and \<open>-\<close> are exact: such a number is an \<open>int\<close>.
  The bitwise operators first reduce an operand to 32 bits (\<open>ToInt32\<close>, \<open>ToUint32\<close>: the
  value modulo \<open>2^32\<close>), mask a shift count to its low five bits, and return a signed
  32-bit result, except \<open>>>>\<close>, whose result is unsigned.
\<close>

definition js_shl :: "int \<Rightarrow> int \<Rightarrow> int" where
  \<comment> \<open>\<open>x << n\<close>\<close>
  "js_shl x n = sint (push_bit (nat (n mod 32)) (word_of_int x :: 32 word))"

definition js_ushr :: "int \<Rightarrow> int \<Rightarrow> int" where
  \<comment> \<open>\<open>x >>> n\<close>\<close>
  "js_ushr x n = uint (drop_bit (nat (n mod 32)) (word_of_int x :: 32 word))"

definition js_and :: "int \<Rightarrow> int \<Rightarrow> int" where
  \<comment> \<open>\<open>x & y\<close>\<close>
  "js_and x y = sint ((word_of_int x :: 32 word) AND word_of_int y)"

definition js_or :: "int \<Rightarrow> int \<Rightarrow> int" where
  \<comment> \<open>\<open>x | y\<close>\<close>
  "js_or x y = sint ((word_of_int x :: 32 word) OR word_of_int y)"

definition js_not :: "int \<Rightarrow> int" where
  \<comment> \<open>\<open>~x\<close>\<close>
  "js_not x = sint (NOT (word_of_int x :: 32 word))"

text \<open>
  \<open>String(n)\<close> for an integral number of magnitude below \<open>10^21\<close> is its decimal
  numeral, with a leading minus sign when negative. This is what \<open>join\<close> and the template
  literals apply to the numbers they render.
\<close>

definition digitChar :: "int \<Rightarrow> char" where
  "digitChar d = ''0123456789'' ! nat d"

function digitsOf :: "int \<Rightarrow> string" where
  \<comment> \<open>the decimal digits of a non-negative integer\<close>
  "digitsOf n =
     (if n < 10 then [digitChar n]
      else digitsOf (n div 10) @ [digitChar (n mod 10)])"
  by pat_completeness auto
termination
  by (relation "measure nat") auto

declare digitsOf.simps [simp del]

definition numberToString :: "int \<Rightarrow> string" where
  "numberToString n = (if n < 0 then CHR ''-'' # digitsOf (- n) else digitsOf n)"

section \<open>Address codec\<close>

text \<open>
  An address is an array of four numbers. \<open>parseCIDR\<close> checks the length of the array it
  returns and \<open>intToIp\<close> builds exactly four entries, so the array is a quadruple here
  and \<open>ip[0]\<close> .. \<open>ip[3]\<close> are its components.
\<close>

type_synonym octets = "int \<times> int \<times> int \<times> int"

definition join_dot :: "octets \<Rightarrow> string" where
  \<comment> \<open>\<open>ip.join('.')\<close>\<close>
  "join_dot ip = (case ip of (a, b, c, d) \<Rightarrow>
     numberToString a @ ''.'' @ numberToString b @ ''.'' @ numberToString c @ ''.'' @
     numberToString d)"

definition ipToInt :: "octets \<Rightarrow> int" where
  "ipToInt ip = (case ip of (ip0, ip1, ip2, ip3) \<Rightarrow>
     js_shl ip0 24 + js_shl ip1 16 + js_shl ip2 8 + ip3)"

definition intToIp :: "int \<Rightarrow> octets" where
  "intToIp i =
     (js_and (js_ushr i 24) 255,
      js_and (js_ushr i 16) 255,
      js_and (js_ushr i 8) 255,
      js_and i 255)"

definition prefixMask :: "int \<Rightarrow> int" where
  \<comment> \<open>the expression \<open>~(0xffffffff >>> prefixLength) >>> 0\<close>, written out three times in
      the source\<close>
  "prefixMask prefixLength = js_ushr (js_not (js_ushr 0xffffffff prefixLength)) 0"

definition calculateNetworkAddress :: "octets \<Rightarrow> int \<Rightarrow> octets" where
  "calculateNetworkAddress ip prefixLength = (case ip of (ip0, ip1, ip2, ip3) \<Rightarrow>
     let mask = prefixMask prefixLength;
         ipInt = js_shl ip0 24 + js_shl ip1 16 + js_shl ip2 8 + ip3;
         networkInt = js_and ipInt mask
     in (js_and (js_ushr networkInt 24) 255,
         js_and (js_ushr networkInt 16) 255,
         js_and (js_ushr networkInt 8) 255,
         js_and networkInt 255))"

definition calculateBroadcastAddress :: "octets \<Rightarrow> int \<Rightarrow> octets" where
  "calculateBroadcastAddress ip prefixLength = (case ip of (ip0, ip1, ip2, ip3) \<Rightarrow>
     let mask = prefixMask prefixLength;
         ipInt = js_shl ip0 24 + js_shl ip1 16 + js_shl ip2 8 + ip3;
         broadcastInt = js_or ipInt (js_not mask)
     in (js_and (js_ushr broadcastInt 24) 255,
         js_and (js_ushr broadcastInt 16) 255,
         js_and (js_ushr broadcastInt 8) 255,
         js_and broadcastInt 255))"

definition prefixLengthToSubnetMask :: "int \<Rightarrow> string" where
  "prefixLengthToSubnetMask prefixLength =
     (let mask = prefixMask prefixLength
      in join_dot (js_and (js_ushr mask 24) 255,
                   js_and (js_ushr mask 16) 255,
                   js_and (js_ushr mask 8) 255,
                   js_and mask 255))"

section \<open>Usable-range resolver\<close>

text \<open>The returned pair of strings; \<open>null\<close> is \<open>None\<close>.\<close>

definition usableRange :: "octets \<Rightarrow> int \<Rightarrow> string option \<times> string option" where
  "usableRange ip prefixLength =
     (let network = calculateNetworkAddress ip prefixLength;
          broadcast = calculateBroadcastAddress ip prefixLength;
          networkInt = (case network of (n0, n1, n2, n3) \<Rightarrow>
                          js_shl n0 24 + js_shl n1 16 + js_shl n2 8 + n3);
          broadcastInt = (case broadcast of (b0, b1, b2, b3) \<Rightarrow>
                          js_shl b0 24 + js_shl b1 16 + js_shl b2 8 + b3)
      in if prefixLength \<ge> 31 then
           (if prefixLength = 31 then (Some (join_dot network), Some (join_dot broadcast))
            else (None, None))
         else
           (let firstHostInt = networkInt + 1;
                firstHost = (js_and (js_ushr firstHostInt 24) 255,
                             js_and (js_ushr firstHostInt 16) 255,
                             js_and (js_ushr firstHostInt 8) 255,
                             js_and firstHostInt 255);
                lastHostInt = broadcastInt - 1;
                lastHost = (js_and (js_ushr lastHostInt 24) 255,
                            js_and (js_ushr lastHostInt 16) 255,
                            js_and (js_ushr lastHostInt 8) 255,
                            js_and lastHostInt 255)
            in (Some (join_dot firstHost), Some (join_dot lastHost))))"

section \<open>Prefix sizer\<close>

text \<open>
  The \<open>while\<close> loop of \<open>getRequiredPrefixLength\<close>, from the current value of
  \<open>prefixLength\<close>: it stops at the first size that covers \<open>totalAddresses\<close>, or at
  \<open>prefixLength = 0\<close> without looking at the size. \<open>Math.pow(2, 32 - prefixLength)\<close> has a
  non-negative integral exponent inside the loop.
\<close>

function sizerLoop :: "int \<Rightarrow> int \<Rightarrow> int" where
  "sizerLoop totalAddresses prefixLength =
     (if prefixLength > 0 then
        (let subnetSize = (2::int) ^ nat (32 - prefixLength)
         in if subnetSize \<ge> totalAddresses then prefixLength
            else sizerLoop totalAddresses (prefixLength - 1))
      else prefixLength)"
  by pat_completeness auto
termination
  by (relation "measure (\<lambda>(t, p). nat p)") auto

declare sizerLoop.simps [simp del]

definition getRequiredPrefixLength :: "int \<Rightarrow> int" where
  "getRequiredPrefixLength hosts = (let totalAddresses = hosts + 2 in sizerLoop totalAddresses 32)"

section \<open>Allocator\<close>

text \<open>
  The messages of the \<open>Error\<close>s that the script throws, under the names the
  specification gives them:
  \<^item> \<open>MalformedInput\<close>: \<^verbatim>\<open>Invalid CIDR format\<close>;
  \<^item> \<open>InvalidPrefixLength\<close>: \<^verbatim>\<open>Invalid prefix length\<close>;
  \<^item> \<open>InvalidAddress\<close>: \<^verbatim>\<open>Invalid IP address\<close>;
  \<^item> \<open>InvalidHostList\<close>: \<^verbatim>\<open>Invalid host requirements. Please enter comma-separated numbers.\<close>;
  \<^item> \<open>InsufficientAddressSpace\<close>: \<^verbatim>\<open>Not enough addresses available for the given requirements.\<close>
  The script throws nothing else.
\<close>

datatype error =
  MalformedInput | InvalidPrefixLength | InvalidAddress | InvalidHostList
  | InsufficientAddressSpace

text \<open>
  The objects \<open>{hosts, prefixLength, subnetSize}\<close> of the array \<open>subnets\<close>. The fields
  carry a prefix, since \<open>hosts\<close> and \<open>prefixLength\<close> are also names of parameters. A host
  requirement is an integer, as in the data model of the specification; the script checks
  only that it is not \<open>NaN\<close>, so the integer may be negative.
\<close>

record subnet =
  sn_hosts :: int
  sn_prefixLength :: int
  sn_subnetSize :: int

definition mkSubnet :: "int \<Rightarrow> subnet" where
  \<comment> \<open>the callback of \<open>hostRequirements.map\<close>\<close>
  "mkSubnet hosts =
     \<lparr>sn_hosts = hosts,
      sn_prefixLength = getRequiredPrefixLength hosts,
      sn_subnetSize = 2 ^ nat (32 - getRequiredPrefixLength hosts)\<rparr>"

text \<open>
  \<open>subnets.sort((a, b) => b.subnetSize - a.subnetSize)\<close>: \<open>Array.prototype.sort\<close> is
  stable, and the comparator puts the larger \<open>subnetSize\<close> first, so the array is
  sorted stably by descending size.
\<close>

definition sortSubnets :: "subnet list \<Rightarrow> subnet list" where
  "sortSubnets subnets = sort_key (\<lambda>s. - sn_subnetSize s) subnets"

text \<open>
  The constants that one call of the callback of \<open>subnets.map\<close> computes before it
  builds its \<open>details\<close> object (\<open>network\<close>, \<open>prefixLength\<close>, \<open>broadcast\<close>,
  \<open>firstHost\<close>, \<open>lastHost\<close>), with the \<open>hosts\<close> of the subnet at hand.
\<close>

record block =
  b_hosts :: int
  b_network :: octets
  b_prefixLength :: int
  b_broadcast :: octets
  b_firstHost :: "string option"
  b_lastHost :: "string option"

definition mkBlock :: "int \<Rightarrow> subnet \<Rightarrow> block" where
  "mkBlock currentIp subnet =
     (let network = intToIp currentIp;
          prefixLength = sn_prefixLength subnet;
          broadcast = calculateBroadcastAddress network prefixLength;
          (firstHost, lastHost) = usableRange network prefixLength
      in \<lparr>b_hosts = sn_hosts subnet, b_network = network, b_prefixLength = prefixLength,
          b_broadcast = broadcast, b_firstHost = firstHost, b_lastHost = lastHost\<rparr>)"

text \<open>
  \<open>subnets.map\<close> with the variable \<open>currentIp\<close> threaded through the calls: each call
  uses the current value and then adds the \<open>subnetSize\<close> of its subnet.
\<close>

fun allocate :: "int \<Rightarrow> subnet list \<Rightarrow> block list" where
  "allocate currentIp [] = []"
| "allocate currentIp (subnet # rest) =
     mkBlock currentIp subnet # allocate (currentIp + sn_subnetSize subnet) rest"

text \<open>The \<open>details\<close> object of one subnet: five strings.\<close>

record details =
  d_name :: string
  d_network :: string
  d_broadcast :: string
  d_hostRange :: string
  d_subnetMask :: string

definition mkDetails :: "nat \<Rightarrow> block \<Rightarrow> details" where
  \<comment> \<open>\<open>index\<close> is the position in the sorted array; a string that \<open>join\<close> returns is
      never empty, so \<open>firstHost && lastHost\<close> fails for \<open>null\<close> only\<close>
  "mkDetails index b =
     \<lparr>d_name = ''Subnet '' @ numberToString (int index + 1) @ '' ('' @
               numberToString (b_hosts b) @ '' hosts)'',
      d_network = join_dot (b_network b) @ ''/'' @ numberToString (b_prefixLength b),
      d_broadcast = join_dot (b_broadcast b),
      d_hostRange = (case (b_firstHost b, b_lastHost b) of
                       (Some firstHost, Some lastHost) \<Rightarrow> firstHost @ '' - '' @ lastHost
                     | _ \<Rightarrow> ''No usable hosts''),
      d_subnetMask = prefixLengthToSubnetMask (b_prefixLength b)\<rparr>"

text \<open>
  The body of \<open>calculateVLSM\<close> from the parsed base network and host requirements on,
  up to the array \<open>subnetDetails\<close>; what comes before reads the form and parses it, what
  comes after writes the array to the page. \<open>vlsmBlocks\<close> stops at the constants of the
  callback, \<open>calculateVLSM\<close> renders them. \<open>Math.pow(2, 32 - prefixLength)\<close> is a
  fraction when the base prefix length exceeds 32.
\<close>

definition vlsmBlocks :: "octets \<Rightarrow> int \<Rightarrow> int list \<Rightarrow> error + block list" where
  "vlsmBlocks ip prefixLength hostRequirements =
     (let subnets = sortSubnets (map mkSubnet hostRequirements);
          totalAddressesNeeded = foldl (\<lambda>sum subnet. sum + sn_subnetSize subnet) 0 subnets;
          availableAddresses = (2::rat) powi (32 - prefixLength)
      in if of_int totalAddressesNeeded > availableAddresses
         then Inl InsufficientAddressSpace
         else Inr (allocate (ipToInt ip) subnets))"

definition calculateVLSM :: "octets \<Rightarrow> int \<Rightarrow> int list \<Rightarrow> error + details list" where
  "calculateVLSM ip prefixLength hostRequirements =
     (case vlsmBlocks ip prefixLength hostRequirements of
        Inl err \<Rightarrow> Inl err
      | Inr blocks \<Rightarrow> Inr (map (\<lambda>(index, b). mkDetails index b) (enumerate 0 blocks)))"

section \<open>CIDR parser\<close>

text \<open>
  \<open>parseCIDR\<close> works on a string with \<open>split\<close>, \<open>parseInt\<close> and \<open>Number\<close>. They are
  modelled on strings of ASCII characters, after ECMAScript: \<open>split\<close> with a separator of
  one character, \<open>parseInt\<close> without a radix, and \<open>Number\<close> applied to a string.

  A number is \<open>NaN\<close>, an infinity, or \<open>Num q\<close> for a finite value \<open>q\<close>. \<open>Number\<close> gives the
  mathematical value of the literal it reads: the rounding of that value to a double is left
  out, so is the sign of zero (\<open>-0 < 0\<close> is false, as \<open>0 < 0\<close> is). Integers below \<open>2^53\<close>
  are not rounded.
\<close>

datatype jsnum = NaN | NegInf | Num rat | PosInf

definition isNaN :: "jsnum \<Rightarrow> bool" where
  "isNaN x = (x = NaN)"

fun js_less :: "jsnum \<Rightarrow> jsnum \<Rightarrow> bool" where
  \<comment> \<open>\<open>x < y\<close>, false when an operand is \<open>NaN\<close>\<close>
  "js_less NaN y = False"
| "js_less x NaN = False"
| "js_less x NegInf = False"
| "js_less NegInf y = True"
| "js_less PosInf y = False"
| "js_less (Num a) PosInf = True"
| "js_less (Num a) (Num b) = (a < b)"

fun js_negate :: "jsnum \<Rightarrow> jsnum" where
  "js_negate NaN = NaN"
| "js_negate NegInf = PosInf"
| "js_negate PosInf = NegInf"
| "js_negate (Num a) = Num (- a)"

fun splitOn :: "char \<Rightarrow> string \<Rightarrow> string list" where
  \<comment> \<open>\<open>s.split(sep)\<close>: the pieces between the separators, one empty piece for the empty
      string\<close>
  "splitOn sep [] = [] # []"
| "splitOn sep (c # cs) =
     (if c = sep then [] # splitOn sep cs
      else (case splitOn sep cs of
              piece # pieces \<Rightarrow> (c # piece) # pieces
            | [] \<Rightarrow> [c] # []))"

definition isWhiteSpace :: "char \<Rightarrow> bool" where
  \<comment> \<open>tab, line feed, vertical tab, form feed, carriage return, space\<close>
  "isWhiteSpace c = (c \<in> set [CHR 0x09, CHR 0x0A, CHR 0x0B, CHR 0x0C, CHR 0x0D, CHR 0x20])"

definition digitValue :: "char \<Rightarrow> int option" where
  \<comment> \<open>the value of a digit \<open>0-9\<close>, \<open>a-f\<close> or \<open>A-F\<close>\<close>
  "digitValue c =
     (let n = (of_char c :: int)
      in if 48 \<le> n \<and> n \<le> 57 then Some (n - 48)
         else if 97 \<le> n \<and> n \<le> 102 then Some (n - 87)
         else if 65 \<le> n \<and> n \<le> 70 then Some (n - 55)
         else None)"

definition isDigitIn :: "int \<Rightarrow> char \<Rightarrow> bool" where
  "isDigitIn radix c = (case digitValue c of Some v \<Rightarrow> v < radix | None \<Rightarrow> False)"

definition numeralValue :: "int \<Rightarrow> string \<Rightarrow> int" where
  \<comment> \<open>the value of a string of digits in a radix\<close>
  "numeralValue radix ds =
     foldl (\<lambda>acc c. acc * radix + (case digitValue c of Some v \<Rightarrow> v | None \<Rightarrow> 0)) 0 ds"

definition parseInt :: "string \<Rightarrow> int option" where
  \<comment> \<open>\<open>None\<close> is \<open>NaN\<close>: leading white space is skipped, then a sign, then \<open>0x\<close> or \<open>0X\<close>
      selects radix 16; the longest run of digits is read, and what follows it is ignored\<close>
  "parseInt string =
     (let S = dropWhile isWhiteSpace string;
          sign = (if S \<noteq> [] \<and> hd S = CHR ''-'' then - 1 else 1);
          S = (if S \<noteq> [] \<and> (hd S = CHR ''+'' \<or> hd S = CHR ''-'') then tl S else S);
          (R, S) = (if take 2 S = ''0x'' \<or> take 2 S = ''0X'' then (16, drop 2 S) else (10, S));
          Z = takeWhile (isDigitIn R) S
      in if Z = [] then None else Some (sign * numeralValue R Z))"

definition exponentPart :: "string \<Rightarrow> int option" where
  \<comment> \<open>the optional \<open>ExponentPart\<close> that ends a decimal literal; \<open>None\<close> when the rest of the
      string is something else\<close>
  "exponentPart r =
     (case r of
        [] \<Rightarrow> Some 0
      | c # r' \<Rightarrow>
          if c = CHR ''e'' \<or> c = CHR ''E'' then
            (let sign = (if r' \<noteq> [] \<and> hd r' = CHR ''-'' then - 1 else 1);
                 ds = (if r' \<noteq> [] \<and> (hd r' = CHR ''+'' \<or> hd r' = CHR ''-'') then tl r' else r')
             in if ds \<noteq> [] \<and> list_all (isDigitIn 10) ds then Some (sign * numeralValue 10 ds)
                else None)
          else None)"

definition unsignedDecimal :: "string \<Rightarrow> jsnum" where
  \<comment> \<open>\<open>StrUnsignedDecimalLiteral\<close>: \<open>Infinity\<close>, or digits with an optional fraction and an
      optional exponent, at least one digit before the exponent\<close>
  "unsignedDecimal s =
     (if s = ''Infinity'' then PosInf
      else
        (let intDigits = takeWhile (isDigitIn 10) s;
             r1 = dropWhile (isDigitIn 10) s;
             hasDot = (r1 \<noteq> [] \<and> hd r1 = CHR ''.'');
             r2 = (if hasDot then tl r1 else r1);
             fracDigits = (if hasDot then takeWhile (isDigitIn 10) r2 else []);
             r3 = (if hasDot then dropWhile (isDigitIn 10) r2 else r2)
         in if intDigits = [] \<and> fracDigits = [] then NaN
            else (case exponentPart r3 of
                    None \<Rightarrow> NaN
                  | Some e \<Rightarrow>
                      Num (of_int (numeralValue 10 (intDigits @ fracDigits))
                           * 10 powi (e - int (length fracDigits))))))"

definition nonDecimal :: "int \<Rightarrow> string \<Rightarrow> jsnum" where
  \<comment> \<open>the digits of a \<open>NonDecimalIntegerLiteral\<close>, after its prefix\<close>
  "nonDecimal radix ds =
     (if ds \<noteq> [] \<and> list_all (isDigitIn radix) ds then Num (of_int (numeralValue radix ds))
      else NaN)"

definition Number :: "string \<Rightarrow> jsnum" where
  \<comment> \<open>\<open>StringToNumber\<close>: white space is trimmed at both ends; the empty string is 0\<close>
  "Number string =
     (let text = rev (dropWhile isWhiteSpace (rev (dropWhile isWhiteSpace string)))
      in if text = [] then Num 0
         else if take 2 text = ''0x'' \<or> take 2 text = ''0X'' then nonDecimal 16 (drop 2 text)
         else if take 2 text = ''0o'' \<or> take 2 text = ''0O'' then nonDecimal 8 (drop 2 text)
         else if take 2 text = ''0b'' \<or> take 2 text = ''0B'' then nonDecimal 2 (drop 2 text)
         else (case text of
                 c # r \<Rightarrow>
                   if c = CHR ''+'' then unsignedDecimal r
                   else if c = CHR ''-'' then js_negate (unsignedDecimal r)
                   else unsignedDecimal text
               | [] \<Rightarrow> Num 0))"

text \<open>The returned object \<open>{ip: octets, prefixLength}\<close>.\<close>

record cidr =
  cidr_ip :: "jsnum list"
  cidr_prefixLength :: int

text \<open>
  \<open>const [ip, prefix] = subnet.split('/')\<close> takes the first two pieces and ignores any
  further one; a missing piece is \<open>undefined\<close>, and \<open>!ip\<close> holds for \<open>undefined\<close> and for
  the empty string.
\<close>

definition parseCIDR :: "string \<Rightarrow> error + cidr" where
  "parseCIDR subnet =
     (case splitOn CHR ''/'' subnet of
        ip # prefix # _ \<Rightarrow>
          if ip = [] \<or> prefix = [] then Inl MalformedInput
          else
            (case parseInt prefix of
               None \<Rightarrow> Inl InvalidPrefixLength
             | Some prefixLength \<Rightarrow>
                 if prefixLength < 0 \<or> prefixLength > 32 then Inl InvalidPrefixLength
                 else
                   (let octets = map Number (splitOn CHR ''.'' ip)
                    in if length octets \<noteq> 4
                          \<or> list_ex (\<lambda>octet. isNaN octet \<or> js_less octet (Num 0)
                                              \<or> js_less (Num 255) octet) octets
                       then Inl InvalidAddress
                       else Inr \<lparr>cidr_ip = octets, cidr_prefixLength = prefixLength\<rparr>))
      | _ \<Rightarrow> Inl MalformedInput)"

section \<open>The specification's notions\<close>

text \<open>
  Definitions that follow the words of the specification, to state its claims about the
  code with. An address is a 32-bit unsigned value there: \<open>toInt\<close> packs four octets, most
  significant first, \<open>toOctets\<close> is its inverse, \<open>subnetMask p\<close> has the top \<open>p\<close> bits set,
  \<open>networkAddress\<close> is \<open>address & subnetMask\<close> and \<open>broadcastAddress\<close> is
  \<open>address | ~subnetMask\<close>.
\<close>

definition spec_toInt :: "octets \<Rightarrow> 32 word" where
  "spec_toInt ip = (case ip of (a, b, c, d) \<Rightarrow>
     word_of_int (a * 2 ^ 24 + b * 2 ^ 16 + c * 2 ^ 8 + d))"

definition spec_toOctets :: "32 word \<Rightarrow> octets" where
  "spec_toOctets w =
     (uint w div 2 ^ 24 mod 256, uint w div 2 ^ 16 mod 256, uint w div 2 ^ 8 mod 256,
      uint w mod 256)"

definition spec_subnetMask :: "nat \<Rightarrow> 32 word" where
  "spec_subnetMask p = NOT (mask (32 - p))"

definition spec_networkAddress :: "octets \<Rightarrow> nat \<Rightarrow> 32 word" where
  "spec_networkAddress ip p = spec_toInt ip AND spec_subnetMask p"

definition spec_broadcastAddress :: "octets \<Rightarrow> nat \<Rightarrow> 32 word" where
  "spec_broadcastAddress ip p = spec_toInt ip OR NOT (spec_subnetMask p)"

text \<open>
  The block size \<open>2^(32 - p)\<close> of a host requirement, \<open>p\<close> its required prefix length, and
  the address range of a returned subnet in the unsigned order: from its network address,
  which is the address of its label \<open>address/prefix\<close> AND the mask of the prefix length,
  to the broadcast address returned with it.
\<close>

definition blockSize :: "int \<Rightarrow> int" where
  "blockSize h = 2 ^ nat (32 - getRequiredPrefixLength h)"

definition addressRange :: "block \<Rightarrow> int set" where
  "addressRange b =
     {uint (spec_networkAddress (b_network b) (nat (b_prefixLength b)))
        .. uint (spec_toInt (b_broadcast b))}"

text \<open>
  The label of a result, \<open>Subnet k (h hosts)\<close>, and two orders in which the results may
  come: the order of the requirements as given, and the order of allocation, by descending
  block size with equal sizes in the order given.
\<close>

definition subnetLabel :: "nat \<Rightarrow> int \<Rightarrow> string" where
  "subnetLabel index h =
     ''Subnet '' @ numberToString (int index + 1) @ '' ('' @ numberToString h @ '' hosts)''"

definition inputOrderLabels :: "int list \<Rightarrow> string list" where
  "inputOrderLabels hs = map (\<lambda>(index, h). subnetLabel index h) (enumerate 0 hs)"

definition allocationOrder :: "int list \<Rightarrow> int list" where
  "allocationOrder hs = sort_key (\<lambda>h. - blockSize h) hs"

text \<open>
  The parts of a CIDR string as \<open>parseCIDR\<close> takes them, and its three checks written with
  the functions it calls.
\<close>

definition hasParts :: "string \<Rightarrow> bool" where
  "hasParts s = (case splitOn CHR ''/'' s of
                   ip # prefix # _ \<Rightarrow> ip \<noteq> [] \<and> prefix \<noteq> []
                 | _ \<Rightarrow> False)"

definition addressPart :: "string \<Rightarrow> string" where
  "addressPart s = (case splitOn CHR ''/'' s of ip # _ \<Rightarrow> ip | [] \<Rightarrow> [])"

definition prefixPart :: "string \<Rightarrow> string" where
  "prefixPart s = (case splitOn CHR ''/'' s of _ # prefix # _ \<Rightarrow> prefix | _ \<Rightarrow> [])"

definition prefixAccepted :: "string \<Rightarrow> bool" where
  "prefixAccepted p = (case parseInt p of None \<Rightarrow> False | Some n \<Rightarrow> 0 \<le> n \<and> n \<le> 32)"

definition addressAccepted :: "string \<Rightarrow> bool" where
  "addressAccepted a =
     (let octets = map Number (splitOn CHR ''.'' a)
      in length octets = 4
         \<and> list_all (\<lambda>octet. \<not> isNaN octet \<and> \<not> js_less octet (Num 0)
                              \<and> \<not> js_less (Num 255) octet) octets)"

text \<open>
  The specification's reading of the checks: a component or a prefix is a decimal numeral,
  one or more digits, whose value lies in the range.
\<close>

definition spec_decimalUpTo :: "int \<Rightarrow> string \<Rightarrow> bool" where
  "spec_decimalUpTo bound s =
     (s \<noteq> [] \<and> list_all (isDigitIn 10) s \<and> numeralValue 10 s \<le> bound)"

definition spec_validAddress :: "string \<Rightarrow> bool" where
  "spec_validAddress a =
     (let components = splitOn CHR ''.'' a
      in length components = 4 \<and> list_all (spec_decimalUpTo 255) components)"

section \<open>The JavaScript operators on 32-bit words\<close>

lemma uint32_mod: "uint (w :: 32 word) mod 2 ^ 32 = uint w"
  by (rule mod_pos_pos_trivial) (use uint_lt2p [of w] in simp_all)

lemma uint_and_255: "uint ((w :: 32 word) AND 255) = uint w mod 256"
proof -
  have "w AND 255 = w AND mask 8" by (simp add: mask_eq_exp_minus_1)
  then have "uint (w AND 255) = uint (word_of_int (uint w mod 2 ^ 8) :: 32 word)"
    by (simp only: and_mask_mod_2p)
  also have "\<dots> = (uint w mod 256) mod 2 ^ 32"
    by (simp add: uint_word_of_int)
  also have "\<dots> = uint w mod 256"
    by (rule mod_pos_pos_trivial) (simp_all add: order_less_trans [OF pos_mod_bound])
  finally show ?thesis .
qed

lemma sint_and_255: "sint ((w :: 32 word) AND 255) = uint w mod 256"
proof -
  have "uint (w AND 255) < 2 ^ 31" "- (2 ^ 31) \<le> uint (w AND 255)"
    by (simp_all add: uint_and_255)
  then have "signed_take_bit 31 (uint (w AND 255)) = uint (w AND 255)"
    by (intro signed_take_bit_int_eq_self) simp_all
  then show ?thesis
    by (simp add: sint_uint uint_and_255)
qed

lemma W_js_shl:
  "(word_of_int (js_shl x n) :: 32 word) = push_bit (nat (n mod 32)) (word_of_int x)"
  by (simp add: js_shl_def)

lemma W_js_ushr:
  "(word_of_int (js_ushr x n) :: 32 word) = drop_bit (nat (n mod 32)) (word_of_int x)"
  by (simp add: js_ushr_def)

lemma W_js_and: "(word_of_int (js_and x y) :: 32 word) = word_of_int x AND word_of_int y"
  by (simp add: js_and_def)

lemma W_js_or: "(word_of_int (js_or x y) :: 32 word) = word_of_int x OR word_of_int y"
  by (simp add: js_or_def)

lemma W_js_not: "(word_of_int (js_not x) :: 32 word) = NOT (word_of_int x)"
  by (simp add: js_not_def)

lemma js_and_255: "js_and x 255 = uint (word_of_int x :: 32 word) mod 256"
  using sint_and_255 [of "word_of_int x"] by (simp add: js_and_def)

lemma octet_of_shift:
  "js_and (js_ushr i (int k)) 255 = uint (word_of_int i :: 32 word) div 2 ^ k mod 256"
  if "k < 32"
proof -
  have "js_and (js_ushr i (int k)) 255 = uint (drop_bit k (word_of_int i :: 32 word)) mod 256"
    using that by (simp add: js_and_255 W_js_ushr)
  also have "uint (drop_bit k (word_of_int i :: 32 word))
             = uint (word_of_int i :: 32 word) div 2 ^ k"
    by (simp only: unsigned_drop_bit_eq)
       (use uint32_mod [of "word_of_int i"] in \<open>simp add: drop_bit_eq_div take_bit_eq_mod\<close>)
  finally show ?thesis .
qed

lemma octet_24:
  "js_and (js_ushr i 24) 255 = uint (word_of_int i :: 32 word) div 2 ^ 24 mod 256"
  using octet_of_shift [of 24 i] by simp

lemma octet_16:
  "js_and (js_ushr i 16) 255 = uint (word_of_int i :: 32 word) div 2 ^ 16 mod 256"
  using octet_of_shift [of 16 i] by simp

lemma octet_8:
  "js_and (js_ushr i 8) 255 = uint (word_of_int i :: 32 word) div 2 ^ 8 mod 256"
  using octet_of_shift [of 8 i] by simp

section \<open>The codec against the specification's 32-bit values\<close>

lemma intToIp_spec: "intToIp i = spec_toOctets (word_of_int i)"
  by (simp only: intToIp_def spec_toOctets_def octet_24 octet_16 octet_8)
     (simp only: js_and_255)

lemma ipToInt_spec: "word_of_int (ipToInt ip) = spec_toInt ip"
  by (cases ip) (simp add: ipToInt_def spec_toInt_def W_js_shl push_bit_eq_mult)

lemma octets_recompose:
  fixes u :: int
  shows "(u div 2 ^ 24 mod 256) * 2 ^ 24 + (u div 2 ^ 16 mod 256) * 2 ^ 16
        + (u div 2 ^ 8 mod 256) * 2 ^ 8 + u mod 256 = u mod 2 ^ 32"
proof -
  have a: "u mod 65536 = 256 * (u div 256 mod 256) + u mod 256"
    using zmod_zmult2_eq [of 256 u 256] by simp
  have b: "u mod 16777216 = 65536 * (u div 65536 mod 256) + u mod 65536"
    using zmod_zmult2_eq [of 256 u 65536] by simp
  have c: "u mod 4294967296 = 16777216 * (u div 16777216 mod 256) + u mod 16777216"
    using zmod_zmult2_eq [of 256 u 16777216] by simp
  have "(2::int) ^ 24 = 16777216" "(2::int) ^ 16 = 65536" "(2::int) ^ 8 = 256"
    "(2::int) ^ 32 = 4294967296" by simp_all
  with a b c show ?thesis by (simp only:)
qed

lemma spec_roundtrip: "spec_toInt (spec_toOctets w) = w"
proof -
  have "spec_toInt (spec_toOctets w) = word_of_int (uint w mod 2 ^ 32)"
    unfolding spec_toInt_def spec_toOctets_def prod.case octets_recompose ..
  then show ?thesis by (simp only: uint32_mod word_of_int_uint)
qed

section \<open>The mask expression\<close>

lemma drop_bit_minus_1: "drop_bit n (- 1 :: 32 word) = mask (32 - n)"
  by (rule bit_word_eqI) (auto simp: bit_simps)

lemma prefixMask_word:
  "(word_of_int (prefixMask p) :: 32 word) = NOT (mask (32 - nat (p mod 32)))"
proof -
  have e: "(4294967295 :: 32 word) = - 1" by simp
  show ?thesis
    by (simp add: prefixMask_def W_js_ushr W_js_not) (simp only: e drop_bit_minus_1)
qed

lemma prefixMask_spec:
  "0 \<le> p \<Longrightarrow> p < 32 \<Longrightarrow> word_of_int (prefixMask p) = spec_subnetMask (nat p)"
  by (simp add: prefixMask_word spec_subnetMask_def)

lemma prefixMask_32: "prefixMask 32 = 0"
  by (simp add: prefixMask_def js_ushr_def js_not_def)

lemma calculateNetworkAddress_word:
  "calculateNetworkAddress ip p = spec_toOctets (spec_toInt ip AND word_of_int (prefixMask p))"
proof -
  have "calculateNetworkAddress ip p = intToIp (js_and (ipToInt ip) (prefixMask p))"
    by (cases ip) (simp add: calculateNetworkAddress_def intToIp_def ipToInt_def Let_def)
  then show ?thesis
    by (simp only: intToIp_spec W_js_and ipToInt_spec)
qed

lemma calculateBroadcastAddress_word:
  "calculateBroadcastAddress ip p
   = spec_toOctets (spec_toInt ip OR NOT (word_of_int (prefixMask p)))"
proof -
  have "calculateBroadcastAddress ip p
        = intToIp (js_or (ipToInt ip) (js_not (prefixMask p)))"
    by (cases ip) (simp add: calculateBroadcastAddress_def intToIp_def ipToInt_def Let_def)
  then show ?thesis
    by (simp only: intToIp_spec W_js_or W_js_not ipToInt_spec)
qed

section \<open>Prefix sizer: the loop\<close>

lemma sizerLoop_range: "0 \<le> k \<Longrightarrow> 0 \<le> sizerLoop t k \<and> sizerLoop t k \<le> k"
proof (induction t k rule: sizerLoop.induct)
  case (1 t p)
  show ?case
  proof (cases "p > 0")
    case True
    then show ?thesis
      using 1 by (subst sizerLoop.simps, subst sizerLoop.simps) (auto simp: Let_def)
  next
    case False
    then show ?thesis using 1 by (simp add: sizerLoop.simps)
  qed
qed

lemma sizerLoop_covers:
  "0 \<le> k \<Longrightarrow> t \<le> 2 ^ 32 \<Longrightarrow> t \<le> 2 ^ nat (32 - sizerLoop t k)"
proof (induction t k rule: sizerLoop.induct)
  case (1 t p)
  show ?case
  proof (cases "p > 0")
    case True
    then show ?thesis using 1 by (subst sizerLoop.simps) (auto simp: Let_def)
  next
    case False
    then show ?thesis using 1 by (simp add: sizerLoop.simps)
  qed
qed

lemma sizerLoop_larger_fail:
  "(\<forall>q. k < q \<and> q \<le> 32 \<longrightarrow> 2 ^ nat (32 - q) < t) \<Longrightarrow>
   sizerLoop t k < q \<Longrightarrow> q \<le> 32 \<Longrightarrow> 2 ^ nat (32 - q) < t"
proof (induction t k rule: sizerLoop.induct)
  case (1 t p)
  show ?case
  proof (cases "p > 0 \<and> \<not> t \<le> 2 ^ nat (32 - p)")
    case True
    then have eq: "sizerLoop t p = sizerLoop t (p - 1)"
      by (subst sizerLoop.simps) (simp add: Let_def)
    have "\<forall>q'. p - 1 < q' \<and> q' \<le> 32 \<longrightarrow> 2 ^ nat (32 - q') < t"
    proof (intro allI impI)
      fix q' assume a: "p - 1 < q' \<and> q' \<le> 32"
      show "2 ^ nat (32 - q') < t"
      proof (cases "q' = p")
        case True
        with \<open>p > 0 \<and> \<not> t \<le> 2 ^ nat (32 - p)\<close> show ?thesis by simp
      next
        case False
        with a have "p < q' \<and> q' \<le> 32" by simp
        with "1.prems"(1) show ?thesis by blast
      qed
    qed
    with 1 True eq show ?thesis by (simp add: Let_def)
  next
    case False
    then have "sizerLoop t p = p"
      by (subst sizerLoop.simps) (auto simp: Let_def)
    with 1 show ?thesis by simp
  qed
qed

lemma sizerLoop_floor: "0 \<le> k \<Longrightarrow> 2 ^ 32 < t \<Longrightarrow> sizerLoop t k = 0"
proof (induction t k rule: sizerLoop.induct)
  case (1 t p)
  show ?case
  proof (cases "p > 0")
    case True
    have "(2::int) ^ nat (32 - p) \<le> 2 ^ 32"
      by (rule power_increasing) (use True in simp_all)
    with "1.prems" have "\<not> t \<le> 2 ^ nat (32 - p)" by simp
    with True 1 show ?thesis by (subst sizerLoop.simps) (simp add: Let_def)
  next
    case False
    with 1 show ?thesis by (simp add: sizerLoop.simps)
  qed
qed

lemma getRequiredPrefixLength_range:
  "0 \<le> getRequiredPrefixLength h \<and> getRequiredPrefixLength h \<le> 32"
  unfolding getRequiredPrefixLength_def Let_def by (rule sizerLoop_range) simp

lemma getRequiredPrefixLength_le_31:
  "0 \<le> h \<Longrightarrow> getRequiredPrefixLength h \<le> 31"
proof -
  assume "0 \<le> h"
  then have "sizerLoop (h + 2) 32 = sizerLoop (h + 2) 31"
    by (subst sizerLoop.simps) (simp add: Let_def)
  moreover have "sizerLoop (h + 2) 31 \<le> 31"
    using sizerLoop_range [of 31 "h + 2"] by simp
  ultimately show ?thesis by (simp add: getRequiredPrefixLength_def)
qed

lemma blockSize_pos: "1 \<le> blockSize h"
  by (simp add: blockSize_def)

text \<open>
  Claim C4: for every host count \<open>h\<close> with \<open>h + 2 \<le> 2^32\<close>, \<open>getRequiredPrefixLength h\<close> is
  a prefix length \<open>p\<close> in \<open>[0, 32]\<close> with \<open>2^(32 - p) \<ge> h + 2\<close>; when \<open>p < 32\<close> the next
  smaller block does not suffice, \<open>2^(32 - (p + 1)) < h + 2\<close>; and no larger prefix length up
  to 32 gives a block that suffices, so \<open>p\<close> is the largest one.
\<close>

theorem getRequiredPrefixLength_minimal:
  assumes "h + 2 \<le> 2 ^ 32"
  shows "0 \<le> getRequiredPrefixLength h \<and> getRequiredPrefixLength h \<le> 32
       \<and> 2 ^ nat (32 - getRequiredPrefixLength h) \<ge> h + 2
       \<and> (getRequiredPrefixLength h < 32 \<longrightarrow>
            2 ^ nat (32 - (getRequiredPrefixLength h + 1)) < h + 2)
       \<and> (\<forall>q. getRequiredPrefixLength h < q \<and> q \<le> 32 \<longrightarrow> 2 ^ nat (32 - q) < h + 2)"
proof -
  let ?p = "getRequiredPrefixLength h"
  have p: "?p = sizerLoop (h + 2) 32" by (simp add: getRequiredPrefixLength_def)
  have r: "0 \<le> ?p \<and> ?p \<le> 32" by (rule getRequiredPrefixLength_range)
  have c: "h + 2 \<le> 2 ^ nat (32 - ?p)"
    unfolding p using assms by (intro sizerLoop_covers) simp_all
  have f: "2 ^ nat (32 - q) < h + 2" if "?p < q" "q \<le> 32" for q
    using that unfolding p by (intro sizerLoop_larger_fail [where k = 32]) simp_all
  have n: "2 ^ nat (32 - (?p + 1)) < h + 2" if "?p < 32"
    using f [of "?p + 1"] that by simp
  from r c f n show ?thesis by blast
qed

theorem getRequiredPrefixLength_minimal_witness:
  "(50::int) + 2 \<le> 2 ^ 32 \<and> getRequiredPrefixLength 50 = 26
     \<and> (2::int) ^ nat (32 - getRequiredPrefixLength 50) \<ge> 50 + 2
     \<and> (2::int) ^ nat (32 - (getRequiredPrefixLength 50 + 1)) < 50 + 2"
  using getRequiredPrefixLength_minimal [of 50]
  by (simp add: getRequiredPrefixLength_def sizerLoop.simps)

text \<open>
  Claim C5, as stated: for the host count 0, \<open>getRequiredPrefixLength\<close> returns 30, a block
  of 4 addresses. It does not: the loop stops at the first size that covers \<open>0 + 2\<close>.
\<close>

theorem getRequiredPrefixLength_zero_not_30:
  "getRequiredPrefixLength 0 \<noteq> 30 \<and> blockSize 0 \<noteq> 4"
  by (simp add: blockSize_def getRequiredPrefixLength_def sizerLoop.simps)

text \<open>
  Claim C5, amended: for the host count 0, \<open>getRequiredPrefixLength\<close> returns 31, a block
  of 2 addresses, the smallest block that holds the two reserved addresses.
\<close>

theorem getRequiredPrefixLength_zero:
  "getRequiredPrefixLength 0 = 31 \<and> blockSize 0 = 2"
  by (simp add: blockSize_def getRequiredPrefixLength_def sizerLoop.simps)

section \<open>Masks and usable ranges\<close>

lemma spec_subnetMask_bits:
  "bit (spec_subnetMask p) i \<longleftrightarrow> i < 32 \<and> 32 - p \<le> i"
  by (auto simp: spec_subnetMask_def bit_simps)

text \<open>
  Claim C6 asks for the mask with exactly the top \<open>p\<close> bits set for every \<open>p\<close> in
  \<open>[0, 32]\<close>, all ones for \<open>p = 32\<close>. The mask expression is that mask for \<open>p\<close> up to 31
  (\<open>prefixMask_spec\<close>, \<open>spec_subnetMask_bits\<close>). At \<open>p = 32\<close> the shift
  \<open>0xffffffff >>> 32\<close> is a shift by 0, and the code computes the mask 0, rendered
  \<open>0.0.0.0\<close>, where the specification's mask is all ones.
\<close>

theorem prefixLengthToSubnetMask_32:
  "prefixLengthToSubnetMask 32 = ''0.0.0.0'' \<and> prefixMask 32 = 0
   \<and> spec_subnetMask 32 = - 1"
  by (simp add: prefixLengthToSubnetMask_def prefixMask_32 js_ushr_def js_and_def join_dot_def
      numberToString_def digitsOf.simps digitChar_def spec_subnetMask_def)

lemma usableRange_unfold:
  "usableRange ip p =
     (if p \<ge> 31 then
        (if p = 31 then (Some (join_dot (calculateNetworkAddress ip p)),
                         Some (join_dot (calculateBroadcastAddress ip p)))
         else (None, None))
      else (Some (join_dot (intToIp (ipToInt (calculateNetworkAddress ip p) + 1))),
            Some (join_dot (intToIp (ipToInt (calculateBroadcastAddress ip p) - 1)))))"
  by (simp add: usableRange_def Let_def ipToInt_def intToIp_def)

lemma intToIp_ipToInt_plus:
  "intToIp (ipToInt (spec_toOctets w) + k) = spec_toOctets (w + word_of_int k)"
proof -
  have "(word_of_int (ipToInt (spec_toOctets w) + k) :: 32 word)
        = word_of_int (ipToInt (spec_toOctets w)) + word_of_int k"
    by simp
  then show ?thesis
    by (simp only: intToIp_spec ipToInt_spec spec_roundtrip)
qed

text \<open>
  Claim C7: for every address and prefix length \<open>p \<ge> 0\<close>, with the network address
  \<open>address & mask\<close> and the broadcast address \<open>address | ~mask\<close> of the block as 32-bit
  values, \<open>usableRange\<close> returns network + 1 and broadcast - 1 when \<open>p < 31\<close>, the network
  and the broadcast address themselves when \<open>p = 31\<close>, and \<open>null\<close> twice when \<open>p = 32\<close>
  (or more), each address rendered as a dotted quad.
\<close>

theorem usableRange_spec:
  assumes "0 \<le> p"
  shows "usableRange ip p =
     (if p < 31 then
        (Some (join_dot (spec_toOctets (spec_networkAddress ip (nat p) + 1))),
         Some (join_dot (spec_toOctets (spec_broadcastAddress ip (nat p) - 1))))
      else if p = 31 then
        (Some (join_dot (spec_toOctets (spec_networkAddress ip 31))),
         Some (join_dot (spec_toOctets (spec_broadcastAddress ip 31))))
      else (None, None))"
proof (cases "p < 31")
  case True
  with assms have m: "word_of_int (prefixMask p) = spec_subnetMask (nat p)"
    by (intro prefixMask_spec) simp_all
  have n: "calculateNetworkAddress ip p = spec_toOctets (spec_networkAddress ip (nat p))"
    by (simp only: calculateNetworkAddress_word m spec_networkAddress_def)
  have b: "calculateBroadcastAddress ip p = spec_toOctets (spec_broadcastAddress ip (nat p))"
    by (simp only: calculateBroadcastAddress_word m spec_broadcastAddress_def)
  have f: "intToIp (ipToInt (calculateNetworkAddress ip p) + 1)
           = spec_toOctets (spec_networkAddress ip (nat p) + 1)"
    unfolding n using intToIp_ipToInt_plus [of _ 1] by simp
  have l: "intToIp (ipToInt (calculateBroadcastAddress ip p) - 1)
           = spec_toOctets (spec_broadcastAddress ip (nat p) - 1)"
    unfolding b using intToIp_ipToInt_plus [of _ "- 1"] by simp
  from True show ?thesis
    by (simp add: usableRange_unfold f l)
next
  case False
  show ?thesis
  proof (cases "p = 31")
    case True
    have m: "word_of_int (prefixMask 31) = spec_subnetMask 31"
      using prefixMask_spec [of 31] by simp
    have n: "calculateNetworkAddress ip 31 = spec_toOctets (spec_networkAddress ip 31)"
      by (simp only: calculateNetworkAddress_word m spec_networkAddress_def)
    have b: "calculateBroadcastAddress ip 31 = spec_toOctets (spec_broadcastAddress ip 31)"
      by (simp only: calculateBroadcastAddress_word m spec_broadcastAddress_def)
    from True show ?thesis
      by (simp add: usableRange_unfold n b)
  next
    case False
    with \<open>\<not> p < 31\<close> show ?thesis
      by (simp add: usableRange_unfold)
  qed
qed

theorem usableRange_spec_witness:
  "(0::int) \<le> 26
   \<and> usableRange (192, 168, 1, 77) 26 = (Some ''192.168.1.65'', Some ''192.168.1.126'')
   \<and> usableRange (10, 0, 0, 0) 31 = (Some ''10.0.0.0'', Some ''10.0.0.1'')
   \<and> usableRange (10, 0, 0, 0) 32 = (None, None)"
  using usableRange_spec [of 26 "(192, 168, 1, 77)"] usableRange_spec [of 31 "(10, 0, 0, 0)"]
    usableRange_spec [of 32 "(10, 0, 0, 0)"]
  by (simp add: spec_networkAddress_def spec_broadcastAddress_def spec_toInt_def
      spec_subnetMask_def spec_toOctets_def join_dot_def numberToString_def digitsOf.simps digitChar_def
      mask_eq_exp_minus_1)




section \<open>Allocator: order, total and capacity check\<close>

lemma insort_key_map:
  "insort_key f (g x) (map g ys) = map g (insort_key (\<lambda>y. f (g y)) x ys)"
  by (induction ys) simp_all

lemma sort_key_map: "sort_key f (map g xs) = map g (sort_key (\<lambda>y. f (g y)) xs)"
  by (induction xs) (simp_all add: insort_key_map)

lemma sortSubnets_map:
  "sortSubnets (map mkSubnet hs) = map mkSubnet (allocationOrder hs)"
proof -
  have "(\<lambda>h. - sn_subnetSize (mkSubnet h)) = (\<lambda>h. - blockSize h)"
    by (rule ext) (simp add: mkSubnet_def blockSize_def)
  then show ?thesis
    by (simp add: sortSubnets_def allocationOrder_def sort_key_map)
qed

lemma foldl_sizes:
  "foldl (\<lambda>sum subnet. sum + sn_subnetSize subnet) k subnets
   = k + sum_list (map sn_subnetSize subnets)"
  by (induction subnets arbitrary: k) simp_all

lemma sum_allocationOrder:
  "sum_list (map blockSize (allocationOrder hs)) = sum_list (map blockSize hs)"
proof -
  have "mset (map blockSize (allocationOrder hs)) = mset (map blockSize hs)"
    by (simp add: allocationOrder_def)
  then show ?thesis
    by (metis sum_mset_sum_list)
qed

lemma sizes_of_subnets: "map sn_subnetSize (map mkSubnet hs) = map blockSize hs"
  by (simp add: mkSubnet_def blockSize_def)

lemma vlsmBlocks_unfold:
  "vlsmBlocks ip P hs =
     (if of_int (sum_list (map blockSize hs)) > (2::rat) powi (32 - P)
      then Inl InsufficientAddressSpace
      else Inr (allocate (ipToInt ip) (map mkSubnet (allocationOrder hs))))"
  by (simp only: vlsmBlocks_def Let_def sortSubnets_map foldl_sizes sizes_of_subnets
      sum_allocationOrder add_0)

lemma calculateVLSM_unfold:
  "calculateVLSM ip P hs =
     (if of_int (sum_list (map blockSize hs)) > (2::rat) powi (32 - P)
      then Inl InsufficientAddressSpace
      else Inr (map (\<lambda>(index, b). mkDetails index b)
                  (enumerate 0 (allocate (ipToInt ip) (map mkSubnet (allocationOrder hs))))))"
  by (simp add: calculateVLSM_def vlsmBlocks_unfold)

lemma available_int:
  "0 \<le> P \<Longrightarrow> P \<le> 32 \<Longrightarrow> (2::rat) powi (32 - P) = of_int (2 ^ nat (32 - P))"
  by (simp add: power_int_nonneg_exp)

text \<open>
  Claim C2: for every base network with prefix length \<open>P\<close> in \<open>[0, 32]\<close> and every list of
  host requirements, the allocation fails with \<open>InsufficientAddressSpace\<close> if and only if the
  sum of the block sizes \<open>2^(32 - p\<^sub>i)\<close> of the requirements exceeds \<open>2^(32 - P)\<close>; it
  returns a plan if and only if the sum does not exceed it, so a failure comes with no plan;
  and it fails in no other way.
\<close>

theorem calculateVLSM_capacity:
  assumes "0 \<le> P" "P \<le> 32"
  shows "(calculateVLSM ip P hs = Inl InsufficientAddressSpace)
           = (sum_list (map blockSize hs) > 2 ^ nat (32 - P))
       \<and> ((\<exists>plan. calculateVLSM ip P hs = Inr plan)
           = (sum_list (map blockSize hs) \<le> 2 ^ nat (32 - P)))
       \<and> (\<forall>err. calculateVLSM ip P hs = Inl err \<longrightarrow> err = InsufficientAddressSpace)"
proof -
  have "(of_int (sum_list (map blockSize hs)) > (2::rat) powi (32 - P))
        = (sum_list (map blockSize hs) > 2 ^ nat (32 - P))"
    using assms by (simp only: available_int of_int_less_iff)
  then show ?thesis
    by (auto simp: calculateVLSM_unfold)
qed

theorem calculateVLSM_capacity_witness:
  "(0::int) \<le> 30 \<and> (30::int) \<le> 32
   \<and> calculateVLSM (10, 0, 0, 0) 30 [10] = Inl InsufficientAddressSpace
   \<and> sum_list (map blockSize [10]) = 16 \<and> (2::int) ^ nat (32 - 30) = 4"
  using calculateVLSM_capacity [of 30 "(10, 0, 0, 0)" "[10]"]
  by (simp add: blockSize_def getRequiredPrefixLength_def sizerLoop.simps)

section \<open>Allocator: the order of the results\<close>

lemma length_allocate: "length (allocate c subnets) = length subnets"
  by (induction subnets arbitrary: c) simp_all

lemma hosts_of_allocate: "map b_hosts (allocate c subnets) = map sn_hosts subnets"
  by (induction subnets arbitrary: c) (simp_all add: mkBlock_def Let_def split: prod.split)

lemma name_of_details: "d_name (mkDetails index b) = subnetLabel index (b_hosts b)"
  by (simp add: mkDetails_def subnetLabel_def)

lemma names_of_details:
  "map d_name (map (\<lambda>(index, b). mkDetails index b) (enumerate n bs))
   = map (\<lambda>(index, h). subnetLabel index h) (enumerate n (map b_hosts bs))"
  by (induction bs arbitrary: n) (simp_all add: name_of_details)

lemma hosts_of_subnets: "map sn_hosts (map mkSubnet hs) = hs"
  by (induction hs) (simp_all add: mkSubnet_def)

text \<open>
  Claim C1, as stated: the results come in the order of the requirements as given, each
  labelled with its original index and its host count. For the requirements 10 and 50 the
  first result is the subnet of 50 hosts, labelled \<open>Subnet 1\<close>: the array is sorted in place
  and its positions after sorting are the indices of the labels.
\<close>

theorem calculateVLSM_input_order_counterexample:
  "calculateVLSM (192, 168, 1, 0) 24 [10, 50] =
     Inr [\<lparr>d_name = ''Subnet 1 (50 hosts)'', d_network = ''192.168.1.0/26'',
            d_broadcast = ''192.168.1.63'', d_hostRange = ''192.168.1.1 - 192.168.1.62'',
            d_subnetMask = ''255.255.255.192''\<rparr>,
          \<lparr>d_name = ''Subnet 2 (10 hosts)'', d_network = ''192.168.1.64/28'',
            d_broadcast = ''192.168.1.79'', d_hostRange = ''192.168.1.65 - 192.168.1.78'',
            d_subnetMask = ''255.255.255.240''\<rparr>]
   \<and> map d_name (projr (calculateVLSM (192, 168, 1, 0) 24 [10, 50])) \<noteq> inputOrderLabels [10, 50]"
  by code_simp

text \<open>
  Claim C1, amended: whenever the allocation succeeds, there is one result for each
  requirement, the results come in the order of allocation (descending block size, equal
  sizes in the order given), and the \<open>k\<close>-th result is labelled \<open>Subnet k\<close> with the host
  count of the \<open>k\<close>-th requirement in that order.
\<close>

theorem calculateVLSM_allocation_order:
  assumes "calculateVLSM ip P hs = Inr plan"
  shows "length plan = length hs
       \<and> map d_name plan
           = map (\<lambda>(index, h). subnetLabel index h) (enumerate 0 (allocationOrder hs))"
proof -
  from assms have
    "plan = map (\<lambda>(index, b). mkDetails index b)
              (enumerate 0 (allocate (ipToInt ip) (map mkSubnet (allocationOrder hs))))"
    by (simp add: calculateVLSM_unfold split: if_splits)
  then show ?thesis
    by (simp only: names_of_details hosts_of_allocate hosts_of_subnets)
       (simp add: length_allocate allocationOrder_def)
qed

theorem calculateVLSM_allocation_order_witness:
  "calculateVLSM (192, 168, 1, 0) 24 [10, 50, 20] \<noteq> Inl InsufficientAddressSpace
   \<and> allocationOrder [10, 50, 20] = [50, 20, 10]
   \<and> map d_name (projr (calculateVLSM (192, 168, 1, 0) 24 [10, 50, 20]))
       = [''Subnet 1 (50 hosts)'', ''Subnet 2 (20 hosts)'', ''Subnet 3 (10 hosts)'']"
proof -
  have e: "allocationOrder [10, 50, 20] = [50, 20, 10]"
    by (simp add: allocationOrder_def blockSize_def getRequiredPrefixLength_def
        sizerLoop.simps)
  obtain plan where p: "calculateVLSM (192, 168, 1, 0) 24 [10, 50, 20] = Inr plan"
    by (simp add: calculateVLSM_unfold blockSize_def getRequiredPrefixLength_def
        sizerLoop.simps)
  from calculateVLSM_allocation_order [OF p] show ?thesis
    by (simp add: p e subnetLabel_def numberToString_def digitsOf.simps digitChar_def)
qed

section \<open>Allocator: a requirement beyond the address space\<close>

lemma sum_blockSize_lower:
  "h \<in> set hs \<Longrightarrow> blockSize h + int (length hs) - 1 \<le> sum_list (map blockSize hs)"
proof (induction hs)
  case Nil
  then show ?case by simp
next
  case (Cons a hs)
  have nonneg: "int (length hs) \<le> sum_list (map blockSize hs)"
  proof (induction hs)
    case Nil
    show ?case by simp
  next
    case (Cons b bs)
    with blockSize_pos [of b] show ?case by simp
  qed
  show ?case
  proof (cases "h = a")
    case True
    with nonneg show ?thesis by simp
  next
    case False
    with Cons have "blockSize h + int (length hs) - 1 \<le> sum_list (map blockSize hs)" by simp
    with blockSize_pos [of a] show ?thesis by simp
  qed
qed

lemma getRequiredPrefixLength_floor: "2 ^ 32 < h + 2 \<Longrightarrow> getRequiredPrefixLength h = 0"
  unfolding getRequiredPrefixLength_def Let_def by (rule sizerLoop_floor) simp_all

text \<open>
  Where the base prefix length is positive or the list holds another requirement, a host
  count \<open>h\<close> with \<open>h + 2 > 2^32\<close> is caught by the check of the total: the sizer returns
  the prefix length 0, a block of \<open>2^32\<close> addresses, and the allocation is aborted.
\<close>

lemma oversized_requirement_aborted:
  assumes "2 ^ 32 < h + 2" "h \<in> set hs" "0 \<le> P" "0 < P \<or> 1 < length hs"
  shows "getRequiredPrefixLength h = 0 \<and> blockSize h = 2 ^ 32
       \<and> calculateVLSM ip P hs = Inl InsufficientAddressSpace"
proof -
  have z: "getRequiredPrefixLength h = 0"
    using assms(1) by (rule getRequiredPrefixLength_floor)
  then have b: "blockSize h = 2 ^ 32" by (simp add: blockSize_def)
  have s: "2 ^ 32 + int (length hs) - 1 \<le> sum_list (map blockSize hs)"
    using sum_blockSize_lower [OF assms(2)] b by simp
  have "(2::rat) powi (32 - P) < of_int (sum_list (map blockSize hs))"
  proof (cases "0 < P")
    case True
    then have "(2::rat) powi (32 - P) \<le> 2 powi 31"
      by (intro power_int_increasing) simp_all
    also have "\<dots> < of_int (2 ^ 32)" by simp
    also have "\<dots> \<le> of_int (sum_list (map blockSize hs))"
      using s assms(2) by (intro of_int_le_iff [THEN iffD2]) (cases hs; simp)
    finally show ?thesis .
  next
    case False
    with assms have l: "1 < length hs" and "P = 0" by simp_all
    then have "(2::rat) powi (32 - P) = of_int (2 ^ 32)" by simp
    also have "\<dots> < of_int (sum_list (map blockSize hs))"
      using s l by (intro of_int_less_iff [THEN iffD2]) simp
    finally show ?thesis .
  qed
  with z b show ?thesis by (simp add: calculateVLSM_unfold)
qed

text \<open>
  Claim C9: a host count \<open>h\<close> with \<open>h + 2 > 2^32\<close>, which no prefix length can hold, is
  reported as an error of that requirement and aborts the allocation, with no partial or
  best-effort result. The script has no such error. For the base \<open>0.0.0.0/0\<close> and the single
  host requirement \<open>4294967295\<close> the loop of \<open>getRequiredPrefixLength\<close> falls through to 0,
  a block of \<open>2^32\<close> addresses where \<open>2^32 + 1\<close> are needed, the check of the total passes,
  and a plan is returned for a subnet that cannot hold the hosts.
\<close>

theorem oversized_requirement_plan:
  "(2::int) ^ 32 < 4294967295 + 2
   \<and> getRequiredPrefixLength 4294967295 = 0
   \<and> blockSize 4294967295 < 4294967295 + 2
   \<and> calculateVLSM (0, 0, 0, 0) 0 [4294967295] =
       Inr [\<lparr>d_name = ''Subnet 1 (4294967295 hosts)'', d_network = ''0.0.0.0/0'',
              d_broadcast = ''255.255.255.255'',
              d_hostRange = ''0.0.0.1 - 255.255.255.254'', d_subnetMask = ''0.0.0.0''\<rparr>]"
  by code_simp

section \<open>Allocator: the address ranges of the blocks\<close>

lemma allocate_nth:
  "i < length subnets \<Longrightarrow>
   allocate c subnets ! i
   = mkBlock (c + sum_list (map sn_subnetSize (take i subnets))) (subnets ! i)"
proof (induction subnets arbitrary: c i)
  case Nil
  then show ?case by simp
next
  case (Cons s subnets)
  show ?case
  proof (cases i)
    case 0
    then show ?thesis by simp
  next
    case (Suc k)
    with Cons.prems have "k < length subnets" by simp
    from Cons.IH [OF this, of "c + sn_subnetSize s"] Suc show ?thesis
      by (simp add: add.assoc)
  qed
qed

lemma network_of_block: "b_network (mkBlock c s) = intToIp c"
  by (simp add: mkBlock_def Let_def split: prod.split)

lemma broadcast_of_block:
  "b_broadcast (mkBlock c s) = calculateBroadcastAddress (intToIp c) (sn_prefixLength s)"
  by (simp add: mkBlock_def Let_def split: prod.split)

lemma not_prefixMask:
  assumes "0 \<le> p" "p < 32"
  shows "NOT (word_of_int (prefixMask p) :: 32 word) = mask (nat (32 - p))"
proof -
  from assms have "nat (p mod 32) = nat p" by simp
  moreover from assms have "32 - nat p = nat (32 - p)" by linarith
  ultimately show ?thesis by (simp add: prefixMask_word)
qed

lemma uint_broadcast:
  assumes "0 \<le> p" "p < 32"
  shows "uint (spec_toInt (calculateBroadcastAddress (intToIp c) p))
         = (c mod 2 ^ 32) OR (2 ^ nat (32 - p) - 1)"
proof -
  from assms have k: "nat (32 - p) \<le> 32" by simp
  have "uint (spec_toInt (calculateBroadcastAddress (intToIp c) p))
        = uint ((word_of_int c :: 32 word) OR mask (nat (32 - p)))"
    by (simp only: calculateBroadcastAddress_word intToIp_spec spec_roundtrip
        not_prefixMask [OF assms])
  also have "\<dots> = uint (word_of_int c :: 32 word) OR mask (nat (32 - p))"
    using k by (simp add: uint_or uint_mask_eq min_def)
  also have "\<dots> = (c mod 2 ^ 32) OR (2 ^ nat (32 - p) - 1)"
    by (simp add: uint_word_of_int mask_eq_exp_minus_1)
  finally show ?thesis .
qed

lemma floor_block: "push_bit e (drop_bit e x) = x - x mod 2 ^ e" for x :: int
  using bits_ident [of e x] by (simp add: take_bit_eq_mod)

lemma or_mask_int: "x OR mask e = x - x mod 2 ^ e + 2 ^ e - 1" for x :: int
proof -
  have "x OR mask e = push_bit e (drop_bit e x) OR mask e"
    by (rule bit_eqI) (auto simp: bit_simps)
  also have "\<dots> = push_bit e (drop_bit e x) + mask e"
    by (rule disjunctive_add [symmetric]) (auto simp: bit_simps)
  finally show ?thesis by (simp add: floor_block mask_eq_exp_minus_1)
qed

lemma uint_and_not_mask:
  "uint (w AND NOT (mask e)) = uint w - uint w mod 2 ^ e" for w :: "32 word"
proof -
  have "w AND NOT (mask e) = push_bit e (drop_bit e w)"
    by (rule bit_word_eqI) (auto simp: bit_simps)
  moreover have tb: "take_bit 32 (uint w) = uint w"
    using uint32_mod [of w] by (simp add: take_bit_eq_mod)
  ultimately have "uint (w AND NOT (mask e)) = take_bit 32 (push_bit e (drop_bit e (uint w)))"
    by (simp add: unsigned_push_bit_eq unsigned_drop_bit_eq)
  also have "\<dots> = take_bit 32 (uint w - uint w mod 2 ^ e)"
    by (simp only: floor_block)
  also have "\<dots> = uint w - uint w mod 2 ^ e"
  proof -
    have "0 \<le> uint w - uint w mod 2 ^ e" "uint w - uint w mod 2 ^ e < 2 ^ 32"
      using uint_lt2p [of w] by (simp_all add: zmod_le_nonneg_dividend) (smt (verit) pos_mod_sign zero_less_power)
    then show ?thesis by (simp add: take_bit_eq_mod)
  qed
  finally show ?thesis .
qed


lemma take_sum_mono:
  fixes xs :: "int list"
  assumes "\<forall>x\<in>set xs. 0 \<le> x" "m \<le> n"
  shows "sum_list (take m xs) \<le> sum_list (take n xs)"
proof -
  have "take n xs = take m xs @ take (n - m) (drop m xs)"
    using assms(2) by (metis le_add_diff_inverse take_add)
  moreover have "0 \<le> sum_list (take (n - m) (drop m xs))"
    using assms(1) by (intro sum_list_nonneg) (auto dest: in_set_takeD in_set_dropD)
  ultimately show ?thesis by simp
qed

lemma take_sum_step:
  fixes xs :: "int list"
  assumes "i < length xs"
  shows "sum_list (take (Suc i) xs) = sum_list (take i xs) + xs ! i"
  using assms by (simp add: take_Suc_conv_app_nth)

lemma take_sum_le_total:
  fixes xs :: "int list"
  assumes "\<forall>x\<in>set xs. 0 \<le> x"
  shows "sum_list (take n xs) \<le> sum_list xs"
  using take_sum_mono [OF assms, of n "length xs"]
  by (cases "n \<le> length xs") simp_all

lemma uint_broadcast_block:
  assumes "0 \<le> p" "p < 32"
  shows "uint (spec_toInt (calculateBroadcastAddress (intToIp c) p))
         = c mod 2 ^ 32 - c mod 2 ^ 32 mod 2 ^ nat (32 - p) + 2 ^ nat (32 - p) - 1"
  using or_mask_int [of "c mod 2 ^ 32" "nat (32 - p)"]
  by (simp only: uint_broadcast [OF assms] mask_eq_exp_minus_1)

lemma uint_network_block:
  assumes "0 \<le> p" "p < 32"
  shows "uint (spec_networkAddress (intToIp c) (nat p))
         = c mod 2 ^ 32 - c mod 2 ^ 32 mod 2 ^ nat (32 - p)"
proof -
  from assms have e: "32 - nat p = nat (32 - p)" by linarith
  have "uint (spec_networkAddress (intToIp c) (nat p))
        = uint ((word_of_int c :: 32 word) AND NOT (mask (nat (32 - p))))"
    by (simp only: spec_networkAddress_def spec_subnetMask_def intToIp_spec spec_roundtrip e)
  then show ?thesis
    by (simp only: uint_and_not_mask uint_word_of_int) simp
qed

text \<open>
  Two aligned blocks, the second no larger than the first and at least the size of the first
  further on, of a walk that covers at most \<open>2^31\<close> addresses.
\<close>

lemma aligned_block_div:
  fixes x m s :: int
  assumes "0 < s" "m - m mod s \<le> x" "x \<le> m - m mod s + s - 1"
  shows "x div s = m div s"
proof (rule int_div_pos_eq)
  show "x = s * (m div s) + (x - (m - m mod s))"
    using mult_div_mod_eq [of s m] by linarith
  show "0 \<le> x - (m - m mod s)" using assms by simp
  show "x - (m - m mod s) < s" using assms by simp
qed

lemma aligned_ranges_disjoint:
  fixes c oi oj si sj :: int
  assumes o: "0 \<le> oi" "oi + si \<le> oj" "oj + sj \<le> 2 ^ 31" "0 < sj" "sj dvd si"
    and si: "0 < si"
  defines "mi \<equiv> (c + oi) mod 2 ^ 32" and "mj \<equiv> (c + oj) mod 2 ^ 32"
  shows "{mi - mi mod si .. mi - mi mod si + si - 1}
         \<inter> {mj - mj mod sj .. mj - mj mod sj + sj - 1} = {}"
proof -
  define c0 where "c0 = c mod 2 ^ 32"
  have c0: "0 \<le> c0" "c0 < 2 ^ 32" by (simp_all add: c0_def)
  have mi: "mi = (c0 + oi) mod 2 ^ 32" and mj: "mj = (c0 + oj) mod 2 ^ 32"
    by (simp_all add: mi_def mj_def c0_def mod_add_left_eq)
  have wrap: "(u::int) mod 2 ^ 32 = (if u < 2 ^ 32 then u else u - 2 ^ 32)"
    if "0 \<le> u" "u < 2 * 2 ^ 32" for u
  proof (cases "u < 2 ^ 32")
    case True
    with that show ?thesis by simp
  next
    case False
    with that have "0 \<le> u - 2 ^ 32" "u - 2 ^ 32 < 2 ^ 32" by simp_all
    then have "(u - 2 ^ 32) mod 2 ^ 32 = u - 2 ^ 32" by (rule mod_pos_pos_trivial)
    moreover have "(u - 2 ^ 32) mod 2 ^ 32 = u mod 2 ^ 32"
      by (simp add: mod_diff_right_eq [symmetric])
    ultimately show ?thesis using False by simp
  qed
  have ui: "0 \<le> c0 + oi" "c0 + oi < 2 * 2 ^ 32" using o c0 si by simp_all
  have uj: "0 \<le> c0 + oj" "c0 + oj < 2 * 2 ^ 32" using o c0 si by simp_all
  have far: "si \<le> \<bar>mj - mi\<bar>"
    using o c0 si unfolding mi mj wrap [OF ui] wrap [OF uj]
    by (simp split: if_splits)
  show ?thesis
  proof (rule ccontr)
    assume "{mi - mi mod si .. mi - mi mod si + si - 1}
            \<inter> {mj - mj mod sj .. mj - mj mod sj + sj - 1} \<noteq> {}"
    then obtain x where "x \<in> {mi - mi mod si .. mi - mi mod si + si - 1}"
      and "x \<in> {mj - mj mod sj .. mj - mj mod sj + sj - 1}"
      by blast
    then have xi: "mi - mi mod si \<le> x" "x \<le> mi - mi mod si + si - 1"
      and xj: "mj - mj mod sj \<le> x" "x \<le> mj - mj mod sj + sj - 1"
      by simp_all
    from o obtain q where q: "si = sj * q" by (auto elim: dvdE)
    with si o have qpos: "0 \<le> q" by (simp add: zero_less_mult_iff)
    have "x div si = mi div si" by (rule aligned_block_div [OF si xi])
    moreover have "x div sj = mj div sj" by (rule aligned_block_div [OF o(4) xj])
    moreover have "x div si = x div sj div q" "mj div si = mj div sj div q"
      unfolding q by (simp_all add: zdiv_zmult2_eq [OF qpos])
    ultimately have d: "mj div si = mi div si" by simp
    have "si * (mi div si) + mi mod si = mi" "si * (mj div si) + mj mod si = mj"
      by (rule mult_div_mod_eq)+
    then have "mj - mi = mj mod si - mi mod si" unfolding d by linarith
    moreover have "0 \<le> mj mod si" "mj mod si < si" "0 \<le> mi mod si" "mi mod si < si"
      using si by simp_all
    ultimately have "\<bar>mj - mi\<bar> < si" by linarith
    with far show False by simp
  qed
qed


lemma block_range:
  fixes c :: int
  assumes nonneg: "\<forall>h\<in>set hs. 0 \<le> h" and k: "k < length hs"
  defines "order \<equiv> allocationOrder hs"
  defines "m \<equiv> (c + sum_list (take k (map blockSize order))) mod 2 ^ 32"
  defines "s \<equiv> blockSize (order ! k)"
  shows "addressRange (allocate c (map mkSubnet order) ! k) = {m - m mod s .. m - m mod s + s - 1}"
proof -
  have len: "length order = length hs" and set: "set order = set hs"
    by (simp_all add: order_def allocationOrder_def)
  let ?h = "order ! k"
  let ?p = "getRequiredPrefixLength ?h"
  from k len set nonneg have "0 \<le> ?h" by (metis nth_mem)
  then have p: "0 \<le> ?p" "?p < 32"
    using getRequiredPrefixLength_range [of ?h] getRequiredPrefixLength_le_31 [of ?h]
    by simp_all
  have blk: "allocate c (map mkSubnet order) ! k
             = mkBlock (c + sum_list (take k (map blockSize order))) (mkSubnet ?h)"
    using k len by (simp add: allocate_nth take_map sizes_of_subnets [symmetric])
  have pl: "b_prefixLength (mkBlock x (mkSubnet ?h)) = ?p"
    "sn_prefixLength (mkSubnet ?h) = ?p" for x
    by (simp_all add: mkBlock_def mkSubnet_def Let_def split: prod.split)
  show ?thesis
    unfolding addressRange_def blk network_of_block broadcast_of_block pl
      uint_network_block [OF p] uint_broadcast_block [OF p]
    by (simp add: m_def s_def blockSize_def)
qed

lemma blockSize_dvd:
  assumes "i < j" "j < length hs"
  shows "blockSize (allocationOrder hs ! j) dvd blockSize (allocationOrder hs ! i)"
proof -
  let ?order = "allocationOrder hs"
  have "sorted (map (\<lambda>h. - blockSize h) ?order)"
    unfolding allocationOrder_def by (rule sorted_sort_key)
  moreover have "length ?order = length hs" by (simp add: allocationOrder_def)
  ultimately have "map (\<lambda>h. - blockSize h) ?order ! i \<le> map (\<lambda>h. - blockSize h) ?order ! j"
    using assms by (intro sorted_nth_mono) simp_all
  with assms \<open>length ?order = length hs\<close>
  have "blockSize (?order ! j) \<le> blockSize (?order ! i)" by simp
  then have "nat (32 - getRequiredPrefixLength (?order ! j))
             \<le> nat (32 - getRequiredPrefixLength (?order ! i))"
    unfolding blockSize_def by (intro power_le_imp_le_exp [of "2::int"]) simp_all
  then show ?thesis
    unfolding blockSize_def by (rule le_imp_power_dvd)
qed

lemma ordered_blocks_disjoint:
  fixes c :: int
  assumes nonneg: "\<forall>h\<in>set hs. 0 \<le> h" and ij: "i < j" "j < length hs"
    and total: "sum_list (map blockSize hs) \<le> 2 ^ 31"
  defines "bs \<equiv> allocate c (map mkSubnet (allocationOrder hs))"
  shows "addressRange (bs ! i) \<inter> addressRange (bs ! j) = {}"
proof -
  let ?order = "allocationOrder hs"
  let ?sizes = "map blockSize ?order"
  let ?oi = "sum_list (take i ?sizes)" and ?oj = "sum_list (take j ?sizes)"
  have len: "length ?order = length hs" by (simp add: allocationOrder_def)
  have pos: "\<forall>x\<in>set ?sizes. 0 \<le> x"
    using blockSize_pos by (auto intro: order_trans [of 0 1])
  from ij have i: "i < length hs" by simp
  have si: "?sizes ! i = blockSize (?order ! i)" and sj: "?sizes ! j = blockSize (?order ! j)"
    using i ij len by simp_all
  have "sum_list (take (Suc i) ?sizes) \<le> ?oj"
    using ij by (intro take_sum_mono [OF pos]) simp
  then have a: "?oi + blockSize (?order ! i) \<le> ?oj"
    using i len by (simp add: take_sum_step si del: take_map)
  have "sum_list (take (Suc j) ?sizes) \<le> sum_list ?sizes"
    by (rule take_sum_le_total [OF pos])
  then have "?oj + blockSize (?order ! j) \<le> sum_list ?sizes"
    using ij len by (simp add: take_sum_step sj del: take_map)
  with total have b: "?oj + blockSize (?order ! j) \<le> 2 ^ 31"
    by (simp add: sum_allocationOrder)
  have z: "0 \<le> ?oi"
    using take_sum_mono [OF pos, of 0 i] by simp
  have pi: "0 < blockSize (?order ! i)" and pj: "0 < blockSize (?order ! j)"
    using blockSize_pos [of "?order ! i"] blockSize_pos [of "?order ! j"] by simp_all
  note ri = block_range [OF nonneg i, of c] and rj = block_range [OF nonneg ij(2), of c]
  from aligned_ranges_disjoint [OF z a b pj blockSize_dvd [OF ij] pi, of c]
  show ?thesis
    unfolding bs_def ri rj .
qed

text \<open>
  Where the walk stays clear of the end of the address space the blocks are kept apart: for
  a base prefix length of at least 1, any base address and host requirements that are not
  negative, the address ranges of any two distinct returned subnets do not intersect.
\<close>

lemma positive_prefix_ranges_disjoint:
  assumes ok: "vlsmBlocks ip P hs = Inr bs"
    and P: "1 \<le> P" and nonneg: "\<forall>h\<in>set hs. 0 \<le> h"
    and ij: "i < length bs" "j < length bs" "i \<noteq> j"
  shows "addressRange (bs ! i) \<inter> addressRange (bs ! j) = {}"
proof -
  from ok have le: "\<not> (2::rat) powi (32 - P) < of_int (sum_list (map blockSize hs))"
    and bs: "bs = allocate (ipToInt ip) (map mkSubnet (allocationOrder hs))"
    by (simp_all add: vlsmBlocks_unfold split: if_splits)
  have "(2::rat) powi (32 - P) \<le> 2 powi 31"
    using P by (intro power_int_increasing) simp_all
  with le have "(of_int (sum_list (map blockSize hs)) :: rat) \<le> of_int (2 ^ 31)" by simp
  then have total: "sum_list (map blockSize hs) \<le> 2 ^ 31"
    by (simp only: of_int_le_iff)
  have len: "length bs = length hs"
    by (simp add: bs length_allocate allocationOrder_def)
  show ?thesis
  proof (cases "i < j")
    case True
    with ij len show ?thesis
      unfolding bs by (intro ordered_blocks_disjoint [OF nonneg _ _ total]) simp_all
  next
    case False
    with ij len have "j < i" "i < length hs" by simp_all
    then have "addressRange (bs ! j) \<inter> addressRange (bs ! i) = {}"
      unfolding bs by (intro ordered_blocks_disjoint [OF nonneg _ _ total]) simp_all
    then show ?thesis by blast
  qed
qed

text \<open>
  Claim C3: for every successful allocation, with a base address aligned to its prefix or
  not, the address ranges from network address to broadcast address of any two distinct
  returned subnets do not intersect. The script breaks this on two inputs that it accepts.
  For the base \<open>10.0.0.0/24\<close> and the host requirements \<open>-1, -1\<close> both subnets get the
  prefix length 32, where the mask expression is 0, and both are returned with the broadcast
  address \<open>255.255.255.255\<close>: the address \<open>10.0.0.1\<close> lies in both ranges. For the base
  \<open>64.0.0.0/0\<close> and the host requirements \<open>1073741824, 536870912, 536870912\<close> the blocks
  sum to \<open>2^32\<close>, the check of the total passes, and the walk from \<open>64.0.0.0\<close> runs past
  \<open>255.255.255.255\<close>: the first subnet \<open>64.0.0.0/1\<close> and the third subnet \<open>0.0.0.0/2\<close>
  both hold \<open>0.0.0.1\<close>, which is returned as the first usable host of both.
\<close>

theorem allocated_ranges_overlap:
  "vlsmBlocks (10, 0, 0, 0) 24 [- 1, - 1] =
     Inr [\<lparr>b_hosts = - 1, b_network = (10, 0, 0, 0), b_prefixLength = 32,
            b_broadcast = (255, 255, 255, 255), b_firstHost = None, b_lastHost = None\<rparr>,
          \<lparr>b_hosts = - 1, b_network = (10, 0, 0, 1), b_prefixLength = 32,
            b_broadcast = (255, 255, 255, 255), b_firstHost = None, b_lastHost = None\<rparr>]
   \<and> uint (spec_toInt (10, 0, 0, 1))
       \<in> addressRange \<lparr>b_hosts = - 1, b_network = (10, 0, 0, 0), b_prefixLength = 32,
            b_broadcast = (255, 255, 255, 255), b_firstHost = None, b_lastHost = None\<rparr>
         \<inter> addressRange \<lparr>b_hosts = - 1, b_network = (10, 0, 0, 1), b_prefixLength = 32,
            b_broadcast = (255, 255, 255, 255), b_firstHost = None, b_lastHost = None\<rparr>
   \<and> vlsmBlocks (64, 0, 0, 0) 0 [1073741824, 536870912, 536870912] =
     Inr [\<lparr>b_hosts = 1073741824, b_network = (64, 0, 0, 0), b_prefixLength = 1,
            b_broadcast = (127, 255, 255, 255), b_firstHost = Some ''0.0.0.1'',
            b_lastHost = Some ''127.255.255.254''\<rparr>,
          \<lparr>b_hosts = 536870912, b_network = (192, 0, 0, 0), b_prefixLength = 2,
            b_broadcast = (255, 255, 255, 255), b_firstHost = Some ''192.0.0.1'',
            b_lastHost = Some ''255.255.255.254''\<rparr>,
          \<lparr>b_hosts = 536870912, b_network = (0, 0, 0, 0), b_prefixLength = 2,
            b_broadcast = (63, 255, 255, 255), b_firstHost = Some ''0.0.0.1'',
            b_lastHost = Some ''63.255.255.254''\<rparr>]
   \<and> uint (spec_toInt (0, 0, 0, 1))
       \<in> addressRange \<lparr>b_hosts = 1073741824, b_network = (64, 0, 0, 0), b_prefixLength = 1,
            b_broadcast = (127, 255, 255, 255), b_firstHost = Some ''0.0.0.1'',
            b_lastHost = Some ''127.255.255.254''\<rparr>
         \<inter> addressRange \<lparr>b_hosts = 536870912, b_network = (0, 0, 0, 0), b_prefixLength = 2,
            b_broadcast = (63, 255, 255, 255), b_firstHost = Some ''0.0.0.1'',
            b_lastHost = Some ''63.255.255.254''\<rparr>"
proof -
  have a: "vlsmBlocks (10, 0, 0, 0) 24 [- 1, - 1] =
     Inr [\<lparr>b_hosts = - 1, b_network = (10, 0, 0, 0), b_prefixLength = 32,
            b_broadcast = (255, 255, 255, 255), b_firstHost = None, b_lastHost = None\<rparr>,
          \<lparr>b_hosts = - 1, b_network = (10, 0, 0, 1), b_prefixLength = 32,
            b_broadcast = (255, 255, 255, 255), b_firstHost = None, b_lastHost = None\<rparr>]"
    by code_simp
  have b: "vlsmBlocks (64, 0, 0, 0) 0 [1073741824, 536870912, 536870912] =
     Inr [\<lparr>b_hosts = 1073741824, b_network = (64, 0, 0, 0), b_prefixLength = 1,
            b_broadcast = (127, 255, 255, 255), b_firstHost = Some ''0.0.0.1'',
            b_lastHost = Some ''127.255.255.254''\<rparr>,
          \<lparr>b_hosts = 536870912, b_network = (192, 0, 0, 0), b_prefixLength = 2,
            b_broadcast = (255, 255, 255, 255), b_firstHost = Some ''192.0.0.1'',
            b_lastHost = Some ''255.255.255.254''\<rparr>,
          \<lparr>b_hosts = 536870912, b_network = (0, 0, 0, 0), b_prefixLength = 2,
            b_broadcast = (63, 255, 255, 255), b_firstHost = Some ''0.0.0.1'',
            b_lastHost = Some ''63.255.255.254''\<rparr>]"
    by code_simp
  have n: "uint (spec_networkAddress (10, 0, 0, 0) 32) = 167772160"
    "uint (spec_networkAddress (10, 0, 0, 1) 32) = 167772161"
    "uint (spec_networkAddress (64, 0, 0, 0) (Suc 0)) = 0"
    "uint (spec_networkAddress (0, 0, 0, 0) 2) = 0"
    by code_simp+
  have t: "uint (spec_toInt (10, 0, 0, 1)) = 167772161"
    "uint (spec_toInt (0, 0, 0, 1)) = 1"
    "uint (spec_toInt (255, 255, 255, 255)) = 4294967295"
    "uint (spec_toInt (127, 255, 255, 255)) = 2147483647"
    "uint (spec_toInt (63, 255, 255, 255)) = 1073741823"
    by code_simp+
  show ?thesis
    unfolding a b by (simp add: addressRange_def n t)
qed


section \<open>CIDR parser: the three checks\<close>

lemma digit_char_code: "isDigitIn 10 c \<Longrightarrow> 48 \<le> (of_char c :: int) \<and> (of_char c :: int) \<le> 57"
  by (auto simp: isDigitIn_def digitValue_def Let_def split: if_splits)

lemma digit_not_special:
  assumes "isDigitIn 10 c"
  shows "\<not> isWhiteSpace c" "c \<noteq> CHR ''+''" "c \<noteq> CHR ''-''" "c \<noteq> CHR ''.''"
    "c \<noteq> CHR ''x''" "c \<noteq> CHR ''X''" "c \<noteq> CHR ''o''" "c \<noteq> CHR ''O''"
    "c \<noteq> CHR ''b''" "c \<noteq> CHR ''B''" "c \<noteq> CHR ''I''"
  using digit_char_code [OF assms] by (auto simp: isWhiteSpace_def)

lemma numeralValue_nonneg_aux:
  "0 \<le> k \<Longrightarrow>
   0 \<le> foldl (\<lambda>acc c. acc * 10 + (case digitValue c of Some v \<Rightarrow> v | None \<Rightarrow> 0)) k ds"
proof (induction ds arbitrary: k)
  case Nil
  then show ?case by simp
next
  case (Cons d ds)
  have "0 \<le> (case digitValue d of Some v \<Rightarrow> v | None \<Rightarrow> 0)"
    by (auto simp: digitValue_def Let_def split: option.split)
  with Cons.prems have "0 \<le> k * 10 + (case digitValue d of Some v \<Rightarrow> v | None \<Rightarrow> 0)"
    by simp
  from Cons.IH [OF this] show ?case by simp
qed

lemma numeralValue_nonneg: "0 \<le> numeralValue 10 ds"
  unfolding numeralValue_def by (rule numeralValue_nonneg_aux) simp

lemma dropWhile_hd: "xs \<noteq> [] \<Longrightarrow> \<not> P (hd xs) \<Longrightarrow> dropWhile P xs = xs"
  by (cases xs) simp_all

lemma trim_digits:
  assumes "s \<noteq> []" "list_all (isDigitIn 10) s"
  shows "dropWhile isWhiteSpace s = s"
    and "rev (dropWhile isWhiteSpace (rev (dropWhile isWhiteSpace s))) = s"
proof -
  from assms have "\<not> isWhiteSpace (hd s)" "\<not> isWhiteSpace (last s)"
    by (simp_all add: list_all_iff digit_not_special(1))
  with assms(1) show a: "dropWhile isWhiteSpace s = s"
    and "rev (dropWhile isWhiteSpace (rev (dropWhile isWhiteSpace s))) = s"
    by (simp_all add: dropWhile_hd hd_rev)
qed

lemma take2_digits:
  assumes "list_all (isDigitIn 10) s" "\<not> isDigitIn 10 d"
  shows "take 2 s \<noteq> [c, d]"
proof
  assume t: "take 2 s = [c, d]"
  then obtain r where "s = c # d # r"
    by (cases s; cases "tl s") (auto split: if_splits)
  with assms show False by simp
qed

lemma Number_digits:
  assumes "s \<noteq> []" "list_all (isDigitIn 10) s"
  shows "Number s = Num (of_int (numeralValue 10 s))"
proof -
  from assms obtain c r where s: "s = c # r" by (cases s) auto
  with assms(2) have c: "isDigitIn 10 c" by simp
  have nx: "take 2 s \<noteq> ''0x''" "take 2 s \<noteq> ''0X''" "take 2 s \<noteq> ''0o''"
    "take 2 s \<noteq> ''0O''" "take 2 s \<noteq> ''0b''" "take 2 s \<noteq> ''0B''"
    by (rule take2_digits [OF assms(2)], simp add: isDigitIn_def digitValue_def)+
  have inf: "s \<noteq> ''Infinity''"
    using c digit_not_special(11) [OF c] by (auto simp: s)
  have tw: "takeWhile (isDigitIn 10) s = s" "dropWhile (isDigitIn 10) s = []"
    using assms(2) by (simp_all add: list_all_iff)
  have u: "unsignedDecimal s = Num (of_int (numeralValue 10 s))"
    using assms(1) by (simp add: unsignedDecimal_def inf tw Let_def exponentPart_def)
  have cs: "(case s of
               c # r \<Rightarrow>
                 if c = CHR ''+'' then unsignedDecimal r
                 else if c = CHR ''-'' then js_negate (unsignedDecimal r)
                 else unsignedDecimal s
             | [] \<Rightarrow> Num 0) = unsignedDecimal s"
    using digit_not_special(2,3) [OF c] by (simp add: s)
  show ?thesis
    unfolding Number_def trim_digits(2) [OF assms] Let_def
    using nx assms(1) by (simp add: cs u)
qed

lemma parseInt_digits:
  assumes "s \<noteq> []" "list_all (isDigitIn 10) s"
  shows "parseInt s = Some (numeralValue 10 s)"
proof -
  from assms obtain c r where s: "s = c # r" by (cases s) auto
  with assms(2) have c: "isDigitIn 10 c" by simp
  have nx: "take 2 s \<noteq> ''0x''" "take 2 s \<noteq> ''0X''"
    by (rule take2_digits [OF assms(2)], simp add: isDigitIn_def digitValue_def)+
  have tw: "takeWhile (isDigitIn 10) s = s"
    using assms(2) by (simp add: list_all_iff)
  have hd: "hd s \<noteq> CHR ''-''" "hd s \<noteq> CHR ''+''"
    using digit_not_special(2,3) [OF c] by (simp_all add: s)
  show ?thesis
    unfolding parseInt_def trim_digits(1) [OF assms] Let_def
    using nx hd assms(1) by (simp add: tw)
qed

lemma spec_prefix_accepted:
  "spec_decimalUpTo 32 p \<Longrightarrow> prefixAccepted p \<and> parseInt p = Some (numeralValue 10 p)"
  using numeralValue_nonneg [of p]
  by (simp add: spec_decimalUpTo_def prefixAccepted_def parseInt_digits)

lemma spec_address_accepted:
  assumes "spec_validAddress a"
  shows "addressAccepted a"
    and "map Number (splitOn CHR ''.'' a)
         = map (\<lambda>c. Num (of_int (numeralValue 10 c))) (splitOn CHR ''.'' a)"
proof -
  let ?cs = "splitOn CHR ''.'' a"
  from assms have len: "length ?cs = 4" and all: "\<forall>c\<in>set ?cs. spec_decimalUpTo 255 c"
    by (simp_all add: spec_validAddress_def Let_def list_all_iff)
  have n: "Number c = Num (of_int (numeralValue 10 c))" if "c \<in> set ?cs" for c
    using all that by (intro Number_digits) (simp_all add: spec_decimalUpTo_def)
  then show "map Number ?cs = map (\<lambda>c. Num (of_int (numeralValue 10 c))) ?cs"
    by simp
  have "\<not> isNaN (Number c) \<and> \<not> js_less (Number c) (Num 0) \<and> \<not> js_less (Num 255) (Number c)"
    if "c \<in> set ?cs" for c
  proof -
    from all that have "numeralValue 10 c \<le> 255" by (simp add: spec_decimalUpTo_def)
    then have "(of_int (numeralValue 10 c) :: rat) \<le> 255"
      using of_int_le_iff [of "numeralValue 10 c" 255, where ?'a = rat] by simp
    moreover have "(0::rat) \<le> of_int (numeralValue 10 c)"
      using numeralValue_nonneg [of c] by simp
    ultimately show ?thesis by (simp add: n [OF that] isNaN_def not_less)
  qed
  with len show "addressAccepted a"
    by (simp add: addressAccepted_def Let_def list_all_iff)
qed


text \<open>
  Claim C8, as stated: once the prefix is accepted, \<open>parseCIDR\<close> fails with
  \<open>InvalidAddress\<close> unless the address part splits into exactly four decimal components,
  each parsing as an integer in \<open>[0, 255]\<close>. The string \<open>1e-1.0.0.0/24\<close> has both parts and
  the prefix 24; the first component of its address is no decimal numeral, and \<open>Number\<close>
  reads it as one tenth, which is no integer; \<open>parseCIDR\<close> returns it in the address.
\<close>

theorem parseCIDR_non_integer_counterexample:
  "hasParts ''1e-1.0.0.0/24''
   \<and> spec_decimalUpTo 32 (prefixPart ''1e-1.0.0.0/24'')
   \<and> \<not> spec_validAddress (addressPart ''1e-1.0.0.0/24'')
   \<and> parseCIDR ''1e-1.0.0.0/24''
       = Inr \<lparr>cidr_ip = [Num (1 / 10), Num 0, Num 0, Num 0], cidr_prefixLength = 24\<rparr>"
  by code_simp

text \<open>
  Claim C8, amended: \<open>parseCIDR\<close> checks in order. It fails with \<open>MalformedInput\<close> if and
  only if the first or the second piece of the input between \<open>/\<close> is missing or empty
  (further pieces are ignored); otherwise with \<open>InvalidPrefixLength\<close> if and only if
  \<open>parseInt\<close> of the second piece is \<open>NaN\<close> or outside \<open>[0, 32]\<close>; otherwise with
  \<open>InvalidAddress\<close> if and only if the first piece does not split at \<open>.\<close> into exactly four
  components whose \<open>Number\<close> values are not \<open>NaN\<close> and lie in \<open>[0, 255]\<close>; otherwise it
  returns these values and the value of \<open>parseInt\<close>. A prefix that is a decimal numeral up
  to 32 and an address of four decimal numerals up to 255 pass the two checks.
\<close>

theorem parseCIDR_stages:
  "((parseCIDR s = Inl MalformedInput) = (\<not> hasParts s))
   \<and> ((parseCIDR s = Inl InvalidPrefixLength)
        = (hasParts s \<and> \<not> prefixAccepted (prefixPart s)))
   \<and> ((parseCIDR s = Inl InvalidAddress)
        = (hasParts s \<and> prefixAccepted (prefixPart s) \<and> \<not> addressAccepted (addressPart s)))
   \<and> ((parseCIDR s = Inr r)
        = (hasParts s \<and> prefixAccepted (prefixPart s) \<and> addressAccepted (addressPart s)
           \<and> cidr_ip r = map Number (splitOn CHR ''.'' (addressPart s))
           \<and> parseInt (prefixPart s) = Some (cidr_prefixLength r)))
   \<and> (spec_decimalUpTo 32 (prefixPart s) \<longrightarrow> prefixAccepted (prefixPart s))
   \<and> (spec_validAddress (addressPart s) \<longrightarrow> addressAccepted (addressPart s))"
proof -
  have stages:
    "((parseCIDR s = Inl MalformedInput) = (\<not> hasParts s))
     \<and> ((parseCIDR s = Inl InvalidPrefixLength)
          = (hasParts s \<and> \<not> prefixAccepted (prefixPart s)))
     \<and> ((parseCIDR s = Inl InvalidAddress)
          = (hasParts s \<and> prefixAccepted (prefixPart s)
             \<and> \<not> addressAccepted (addressPart s)))
     \<and> ((parseCIDR s = Inr r)
          = (hasParts s \<and> prefixAccepted (prefixPart s) \<and> addressAccepted (addressPart s)
             \<and> cidr_ip r = map Number (splitOn CHR ''.'' (addressPart s))
             \<and> parseInt (prefixPart s) = Some (cidr_prefixLength r)))"
  proof (cases "splitOn CHR ''/'' s")
    case Nil
    then show ?thesis
      by (simp add: parseCIDR_def hasParts_def)
  next
    case (Cons ip rest)
    show ?thesis
    proof (cases rest)
      case Nil
      with Cons show ?thesis
        by (simp add: parseCIDR_def hasParts_def)
    next
      case (Cons prefix more)
      with \<open>splitOn CHR ''/'' s = ip # rest\<close>
      have sp: "splitOn CHR ''/'' s = ip # prefix # more" by simp
      show ?thesis
      proof (cases "parseInt prefix")
        case None
        with sp show ?thesis
          by (simp add: parseCIDR_def hasParts_def prefixPart_def addressPart_def
              prefixAccepted_def)
      next
        case (Some n)
        with sp show ?thesis
          by (cases r)
             (auto simp: parseCIDR_def hasParts_def prefixPart_def addressPart_def
                prefixAccepted_def addressAccepted_def Let_def list_ex_iff list_all_iff)
      qed
    qed
  qed
  with spec_prefix_accepted [of "prefixPart s"] spec_address_accepted(1) [of "addressPart s"]
  show ?thesis by blast
qed

theorem parseCIDR_stages_witness:
  "spec_decimalUpTo 32 (prefixPart ''192.168.1.0/24'')
   \<and> spec_validAddress (addressPart ''192.168.1.0/24'')
   \<and> parseCIDR ''192.168.1.0/24''
       = Inr \<lparr>cidr_ip = [Num 192, Num 168, Num 1, Num 0], cidr_prefixLength = 24\<rparr>"
proof -
  have h: "hasParts ''192.168.1.0/24''
     \<and> spec_decimalUpTo 32 (prefixPart ''192.168.1.0/24'')
     \<and> spec_validAddress (addressPart ''192.168.1.0/24'')
     \<and> map Number (splitOn CHR ''.'' (addressPart ''192.168.1.0/24''))
         = [Num 192, Num 168, Num 1, Num 0]
     \<and> parseInt (prefixPart ''192.168.1.0/24'') = Some 24"
    by code_simp
  from parseCIDR_stages [of "''192.168.1.0/24''"
      "\<lparr>cidr_ip = [Num 192, Num 168, Num 1, Num 0], cidr_prefixLength = 24\<rparr>"] h
  show ?thesis by simp
qed


end
